theory Spec2Isabelle
  imports Main
begin

section \<open>Values read back from the storage slot\<close>

text \<open>
  The application keeps its task list in \<^verbatim>\<open>localStorage\<close> under the key
  \<^verbatim>\<open>'todos'\<close>, written with \<^verbatim>\<open>JSON.stringify\<close> and read with
  \<^verbatim>\<open>JSON.parse\<close>. Both are services of the browser, not code of the
  application; the model describes them by what they deliver.

  \<open>json\<close> is a value as \<^verbatim>\<open>JSON.parse\<close> returns it. Numbers are the integers
  (the ids and timestamps of the application are readings of \<^verbatim>\<open>Date.now()\<close>);
  numbers with a fractional part are outside the model. An object is the list of its
  own properties, each key once.
\<close>

datatype json =
    JNull
  | JBool bool
  | JNum int
  | JStr string
  | JArr "json list"
  | JObj "(string \<times> json) list"

text \<open>
  What \<^verbatim>\<open>localStorage.getItem('todos')\<close> followed by \<^verbatim>\<open>JSON.parse\<close> can meet:
  the key is absent (\<^verbatim>\<open>getItem\<close> returns \<^verbatim>\<open>null\<close>), the key holds the empty
  string, the key holds a non-empty string that \<^verbatim>\<open>JSON.parse\<close> rejects with a
  \<^verbatim>\<open>SyntaxError\<close> (the text \<^verbatim>\<open>not json\<close> is one), or it holds a string that
  \<^verbatim>\<open>JSON.parse\<close> accepts, with the value it parses to.
\<close>

datatype slot =
    NoItem
  | EmptyText
  | BadText
  | JsonText json

subsection \<open>JavaScript's truthiness, property access and \<^verbatim>\<open>||\<close>\<close>

text \<open>
  \<^verbatim>\<open>null\<close>, \<^verbatim>\<open>false\<close>, \<^verbatim>\<open>0\<close> and \<^verbatim>\<open>''\<close> are falsy; every array and
  object is truthy.
\<close>

fun truthy :: "json \<Rightarrow> bool" where
  "truthy JNull = False"
| "truthy (JBool b) = b"
| "truthy (JNum n) = (n \<noteq> 0)"
| "truthy (JStr s) = (s \<noteq> [])"
| "truthy (JArr xs) = True"
| "truthy (JObj kvs) = True"

text \<open>
  \<^verbatim>\<open>v.k\<close> for \<open>k\<close> one of \<^verbatim>\<open>id\<close>, \<^verbatim>\<open>text\<close>, \<^verbatim>\<open>completed\<close>,
  \<^verbatim>\<open>createdAt\<close>: \<open>None\<close> is \<^verbatim>\<open>undefined\<close>. An object gives its own property;
  booleans, numbers, strings and arrays have no property of these names. Reading a
  property of \<^verbatim>\<open>null\<close> throws a \<^verbatim>\<open>TypeError\<close>, which the caller below handles
  before it calls \<open>get_prop\<close>.
\<close>

fun get_prop :: "json \<Rightarrow> string \<Rightarrow> json option" where
  "get_prop (JObj kvs) k = map_of kvs k"
| "get_prop v k = None"

text \<open>
  The left operand of \<^verbatim>\<open>||\<close> may be \<^verbatim>\<open>undefined\<close>, which is falsy;
  \<open>or_else a b\<close> is \<^verbatim>\<open>a || b\<close>.
\<close>

fun truthy_opt :: "json option \<Rightarrow> bool" where
  "truthy_opt None = False"
| "truthy_opt (Some v) = truthy v"

fun or_else :: "json option \<Rightarrow> json \<Rightarrow> json" where
  "or_else None d = d"
| "or_else (Some v) d = (if truthy v then v else d)"

section \<open>Tasks\<close>

text \<open>
  A task as the application holds it in memory. The fields are JavaScript values:
  \<^verbatim>\<open>loadTodosFromStorage\<close> copies whatever truthy value the stored entry has, of
  any type. The fields \<^verbatim>\<open>id\<close> and \<^verbatim>\<open>text\<close> carry a suffix here, the plain names
  being taken.
\<close>

record todo =
  id_t :: json
  text_t :: json
  completed :: json
  createdAt :: json

section \<open>Loading\<close>

text \<open>
  \<^verbatim>\<open>Date.now()\<close> is a reading of the clock: \<open>clk k\<close> is what its \<open>k\<close>-th call
  during the load returns. The callback of \<^verbatim>\<open>parsedTodos.map\<close> builds

  \<^verbatim>\<open>{ id: todo.id || Date.now(), text: todo.text || '',
      completed: todo.completed || false,
      createdAt: todo.createdAt || todo.id || Date.now() }\<close>

  evaluating the properties in this order, so it reads the clock for \<^verbatim>\<open>id\<close> before
  it reads it for \<^verbatim>\<open>createdAt\<close>, and only where the operands to the left are
  falsy. The result is the task and the number of clock readings used so far; \<open>None\<close>
  is the \<^verbatim>\<open>TypeError\<close> of \<^verbatim>\<open>todo.id\<close> when the entry is \<^verbatim>\<open>null\<close>.
\<close>

definition repairTodo :: "(nat \<Rightarrow> int) \<Rightarrow> nat \<Rightarrow> json \<Rightarrow> (todo \<times> nat) option" where
  "repairTodo clk k entry =
     (if entry = JNull then None
      else
        let id_ok = truthy_opt (get_prop entry ''id'');
            k1 = (if id_ok then k else Suc k);
            created_ok = truthy_opt (get_prop entry ''createdAt'');
            k2 = (if created_ok \<or> id_ok then k1 else Suc k1)
        in Some
          (\<lparr> id_t = or_else (get_prop entry ''id'') (JNum (clk k)),
             text_t = or_else (get_prop entry ''text'') (JStr []),
             completed = or_else (get_prop entry ''completed'') (JBool False),
             createdAt =
               or_else (get_prop entry ''createdAt'')
                 (or_else (get_prop entry ''id'') (JNum (clk k1))) \<rparr>,
           k2))"

text \<open>
  \<^verbatim>\<open>parsedTodos.map(...)\<close>: the entries in order; the first \<^verbatim>\<open>TypeError\<close> ends
  the whole map.
\<close>

fun repairAll :: "(nat \<Rightarrow> int) \<Rightarrow> nat \<Rightarrow> json list \<Rightarrow> todo list option" where
  "repairAll clk k [] = Some []"
| "repairAll clk k (entry # entries) =
     (case repairTodo clk k entry of
        None \<Rightarrow> None
      | Some (t, k') \<Rightarrow>
          (case repairAll clk k' entries of
             None \<Rightarrow> None
           | Some ts \<Rightarrow> Some (t # ts)))"

text \<open>
  \<^verbatim>\<open>loadTodosFromStorage\<close>. The \<^verbatim>\<open>try\<close> block spans the read, the parse and the
  map; its \<^verbatim>\<open>catch\<close> logs and falls through to \<^verbatim>\<open>return []\<close>, as do the two
  \<^verbatim>\<open>if\<close>s when their tests fail.
\<close>

fun loadTodosFromStorage :: "(nat \<Rightarrow> int) \<Rightarrow> slot \<Rightarrow> todo list" where
  "loadTodosFromStorage clk NoItem = []"
| "loadTodosFromStorage clk EmptyText = []"
| "loadTodosFromStorage clk BadText = []"
| "loadTodosFromStorage clk (JsonText (JArr parsedTodos)) =
     (if length parsedTodos > 0
      then (case repairAll clk 0 parsedTodos of None \<Rightarrow> [] | Some ts \<Rightarrow> ts)
      else [])"
| "loadTodosFromStorage clk (JsonText v) = []"

section \<open>Saving\<close>

text \<open>
  \<^verbatim>\<open>JSON.stringify(todos)\<close> writes each task as an object with the four
  properties in the order of the object literal that built it; what
  \<^verbatim>\<open>JSON.parse\<close> makes of that text is the value below. (That parsing a
  stringified value of numbers, strings, booleans, arrays and objects gives the value
  back is the browser's contract, taken as such; the text is never empty.)
\<close>

definition todo_json :: "todo \<Rightarrow> json" where
  "todo_json t =
     JObj [(''id'', id_t t), (''text'', text_t t),
           (''completed'', completed t), (''createdAt'', createdAt t)]"

definition todos_json :: "todo list \<Rightarrow> json" where
  "todos_json ts = JArr (map todo_json ts)"

text \<open>
  The effect \<^verbatim>\<open>useEffect(() => { try { localStorage.setItem('todos',
  JSON.stringify(todos)) } catch ... }, [todos])\<close>, on the content of the slot:
  \<open>written\<close> says whether \<^verbatim>\<open>setItem\<close> succeeded; when it throws (the quota is
  exceeded) the \<^verbatim>\<open>catch\<close> warns and the slot keeps its old content.
\<close>

definition saveTodos :: "bool \<Rightarrow> todo list \<Rightarrow> slot \<Rightarrow> slot" where
  "saveTodos written ts old = (if written then JsonText (todos_json ts) else old)"

section \<open>The state of the \<^verbatim>\<open>App\<close> component and its handlers\<close>

text \<open>
  \<^verbatim>\<open>String.prototype.trim\<close> strips white space and line terminators from both
  ends. A character here is one of the first 256 code points; of these, tab, line
  feed, vertical tab, form feed, carriage return, space and no-break space count.
\<close>

definition is_space :: "char \<Rightarrow> bool" where
  "is_space c = (of_char c \<in> {9, 10, 11, 12, 13, 32, 160 :: nat})"

definition trim :: "string \<Rightarrow> string" where
  "trim s = rev (dropWhile is_space (rev (dropWhile is_space s)))"

text \<open>
  The three \<^verbatim>\<open>useState\<close> cells of \<^verbatim>\<open>App\<close>, and the callbacks that
  \<^verbatim>\<open>clearCompleted\<close> has handed to \<^verbatim>\<open>setTimeout\<close> and that have not run yet,
  oldest first: each with its delay in milliseconds and the list \<^verbatim>\<open>todos\<close> that
  its closure captured. (The callback that \<^verbatim>\<open>addTodo\<close> schedules only moves the
  focus; it touches none of the cells and is left out.)
\<close>

record app =
  todos :: "todo list"
  inputValue :: string
  exitingIds :: "json list"
  timers :: "(nat \<times> todo list) list"

text \<open>
  \<^verbatim>\<open>useState(() => loadTodosFromStorage())\<close>, \<^verbatim>\<open>useState('')\<close>,
  \<^verbatim>\<open>useState([])\<close>.
\<close>

definition App_init :: "(nat \<Rightarrow> int) \<Rightarrow> slot \<Rightarrow> app" where
  "App_init clk stored =
     \<lparr> todos = loadTodosFromStorage clk stored, inputValue = [],
       exitingIds = [], timers = [] \<rparr>"

text \<open>
  A handler runs in the closure of the latest render, so the \<^verbatim>\<open>todos\<close> it reads
  is the current cell. \<^verbatim>\<open>addTodo\<close> reads the clock twice: \<open>now_id\<close> for
  \<^verbatim>\<open>id\<close>, then \<open>now_created\<close> for \<^verbatim>\<open>createdAt\<close>.
\<close>

definition addTodo :: "int \<Rightarrow> int \<Rightarrow> app \<Rightarrow> app" where
  "addTodo now_id now_created s =
     (let trimmedValue = trim (inputValue s) in
      if trimmedValue = [] then s
      else
        let newTodo = \<lparr> id_t = JNum now_id, text_t = JStr trimmedValue,
                        completed = JBool False, createdAt = JNum now_created \<rparr>
        in s\<lparr> todos := todos s @ [newTodo], inputValue := [] \<rparr>)"

text \<open>
  \<^verbatim>\<open>todo.id !== id\<close> and \<^verbatim>\<open>todo.id === id\<close> are equality of values for
  numbers, strings, booleans and \<^verbatim>\<open>null\<close>. An id made by \<^verbatim>\<open>addTodo\<close> is a
  number. A stored id can also be an array or an object, which JavaScript compares by
  reference; the model compares every id by value, so there it takes two tasks whose
  ids have the same content for tasks with the same id.
\<close>

definition deleteTodo :: "json \<Rightarrow> app \<Rightarrow> app" where
  "deleteTodo i s = s\<lparr> todos := filter (\<lambda>t. id_t t \<noteq> i) (todos s) \<rparr>"

definition toggleComplete :: "json \<Rightarrow> app \<Rightarrow> app" where
  "toggleComplete i s =
     s\<lparr> todos :=
          map (\<lambda>t. if id_t t = i then t\<lparr> completed := JBool (\<not> truthy (completed t)) \<rparr> else t)
            (todos s) \<rparr>"

definition updateTodo :: "json \<Rightarrow> string \<Rightarrow> app \<Rightarrow> app" where
  "updateTodo i newText s =
     (let trimmedText = trim newText in
      if trimmedText = [] then s
      else s\<lparr> todos :=
                map (\<lambda>t. if id_t t = i then t\<lparr> text_t := JStr trimmedText \<rparr> else t)
                  (todos s) \<rparr>)"

text \<open>
  \<^verbatim>\<open>clearCompleted\<close> marks the completed tasks as exiting and schedules the
  removal 400 ms later; the callback closes over the \<^verbatim>\<open>todos\<close> of this render.
\<close>

definition clearCompleted :: "app \<Rightarrow> app" where
  "clearCompleted s =
     (let completedIds = map id_t (filter (\<lambda>t. truthy (completed t)) (todos s)) in
      if length completedIds = 0 then s
      else s\<lparr> exitingIds := completedIds, timers := timers s @ [(400, todos s)] \<rparr>)"

text \<open>
  The oldest pending callback runs: \<^verbatim>\<open>setTodos(todos.filter(todo =>
  !todo.completed)); setExitingIds([])\<close>, with the captured \<^verbatim>\<open>todos\<close>. All
  callbacks have the same delay, so they run in the order they were scheduled.
\<close>

definition timeout_fires :: "app \<Rightarrow> app" where
  "timeout_fires s =
     (case timers s of
        [] \<Rightarrow> s
      | (delay, captured) # rest \<Rightarrow>
          s\<lparr> todos := filter (\<lambda>t. \<not> truthy (completed t)) captured,
             exitingIds := [], timers := rest \<rparr>)"

text \<open>
  What the user and the clock can do to the running component. \<open>Add raw n1 n2\<close>:
  the input field holds \<open>raw\<close> (\<^verbatim>\<open>onChange\<close> has stored it in \<^verbatim>\<open>inputValue\<close>)
  and the user submits it, the clock reading \<open>n1\<close> and then \<open>n2\<close>.
\<close>

datatype event =
    Add string int int
  | Delete json
  | Toggle json
  | Edit json string
  | ClearCompleted
  | Timeout

fun step :: "event \<Rightarrow> app \<Rightarrow> app" where
  "step (Add raw n1 n2) s = addTodo n1 n2 (s\<lparr> inputValue := raw \<rparr>)"
| "step (Delete i) s = deleteTodo i s"
| "step (Toggle i) s = toggleComplete i s"
| "step (Edit i raw) s = updateTodo i raw s"
| "step ClearCompleted s = clearCompleted s"
| "step Timeout s = timeout_fires s"

fun run :: "event list \<Rightarrow> app \<Rightarrow> app" where
  "run [] s = s"
| "run (e # es) s = run es (step e s)"

text \<open>The component when nothing is stored: the first run.\<close>

definition empty_app :: app where
  "empty_app = \<lparr> todos = [], inputValue = [], exitingIds = [], timers = [] \<rparr>"

section \<open>Vocabulary of the properties\<close>

subsection \<open>Well-formed tasks and stored values\<close>

text \<open>
  A well-formed task: a non-zero integer id, a non-empty text, a boolean completion
  flag and a non-zero integer creation time.
\<close>

fun nonzero_int :: "json \<Rightarrow> bool" where
  "nonzero_int (JNum n) = (n \<noteq> 0)"
| "nonzero_int v = False"

fun nonempty_string :: "json \<Rightarrow> bool" where
  "nonempty_string (JStr s) = (s \<noteq> [])"
| "nonempty_string v = False"

fun is_boolean :: "json \<Rightarrow> bool" where
  "is_boolean (JBool b) = True"
| "is_boolean v = False"

definition well_formed :: "todo \<Rightarrow> bool" where
  "well_formed t =
     (nonzero_int (id_t t) \<and> nonempty_string (text_t t) \<and>
      is_boolean (completed t) \<and> nonzero_int (createdAt t))"

fun nonempty_array :: "json \<Rightarrow> bool" where
  "nonempty_array (JArr xs) = (xs \<noteq> [])"
| "nonempty_array v = False"

definition is_completed :: "todo \<Rightarrow> bool" where
  "is_completed t = truthy (completed t)"

subsection \<open>Texts\<close>

text \<open>
  The invariant on texts: a task has a text, a string that is not empty after
  trimming. For the component it is asked of the list and of every list that a
  pending callback has captured, since the callback will put (a part of) that list
  back.
\<close>

definition has_text :: "todo \<Rightarrow> bool" where
  "has_text t = (case text_t t of JStr x \<Rightarrow> trim x \<noteq> [] | _ \<Rightarrow> False)"

definition texts_ok :: "app \<Rightarrow> bool" where
  "texts_ok s =
     (list_all has_text (todos s) \<and> list_all (\<lambda>p. list_all has_text (snd p)) (timers s))"

subsection \<open>Histories\<close>

text \<open>A handler call, as opposed to a pending callback that runs.\<close>

fun user_event :: "event \<Rightarrow> bool" where
  "user_event Timeout = False"
| "user_event e = True"

text \<open>
  Histories of the four list operations. \<open>count_adds\<close> and \<open>count_deletes\<close> count
  the calls, whatever they did.
\<close>

fun list_op :: "event \<Rightarrow> bool" where
  "list_op ClearCompleted = False"
| "list_op Timeout = False"
| "list_op e = True"

fun is_add :: "event \<Rightarrow> bool" where
  "is_add (Add raw n1 n2) = True"
| "is_add e = False"

fun is_delete :: "event \<Rightarrow> bool" where
  "is_delete (Delete i) = True"
| "is_delete e = False"

definition count_adds :: "event list \<Rightarrow> nat" where
  "count_adds es = length (filter is_add es)"

definition count_deletes :: "event list \<Rightarrow> nat" where
  "count_deletes es = length (filter is_delete es)"

text \<open>
  The ids that the adds of a history have handed out, in order: an add counts when its
  text is not blank, and its id is its first clock reading.
\<close>

fun added_ids :: "event list \<Rightarrow> json list" where
  "added_ids [] = []"
| "added_ids (Add raw n1 n2 # es) =
     (if trim raw = [] then added_ids es else JNum n1 # added_ids es)"
| "added_ids (e # es) = added_ids es"

text \<open>
  What a history says about one id \<open>i\<close>, looking at the operations on \<open>i\<close> alone:
  no task (\<open>None\<close>) until a non-blank add hands out \<open>i\<close>; from then on the task
  with the text of the latest non-blank edit of \<open>i\<close> (of the add, before any), with
  the completion flag negated by every toggle of \<open>i\<close>, with the creation time of the
  add; no task again after a delete of \<open>i\<close>.
\<close>

fun track_step :: "json \<Rightarrow> event \<Rightarrow> todo option \<Rightarrow> todo option" where
  "track_step i (Add raw n1 n2) cur =
     (if trim raw \<noteq> [] \<and> JNum n1 = i
      then Some \<lparr> id_t = i, text_t = JStr (trim raw), completed = JBool False,
                  createdAt = JNum n2 \<rparr>
      else cur)"
| "track_step i (Edit j raw) cur =
     (if j = i \<and> trim raw \<noteq> []
      then map_option (\<lambda>t. t\<lparr> text_t := JStr (trim raw) \<rparr>) cur
      else cur)"
| "track_step i (Toggle j) cur =
     (if j = i
      then map_option (\<lambda>t. t\<lparr> completed := JBool (\<not> truthy (completed t)) \<rparr>) cur
      else cur)"
| "track_step i (Delete j) cur = (if j = i then None else cur)"
| "track_step i e cur = cur"

definition track :: "json \<Rightarrow> event list \<Rightarrow> todo option" where
  "track i es = foldl (\<lambda>cur e. track_step i e cur) None es"

text \<open>
  The deletes of a history \<open>es\<close>, run after the history \<open>before\<close>, that name an id
  which has a task at that moment.
\<close>

fun deletes_hit :: "event list \<Rightarrow> event list \<Rightarrow> nat" where
  "deletes_hit before [] = 0"
| "deletes_hit before (Delete j # es) =
     (if track j before = None then 0 else 1) + deletes_hit (before @ [Delete j]) es"
| "deletes_hit before (e # es) = deletes_hit (before @ [e]) es"

text \<open>
  The list after a history, against what the history says id by id: what the
  operations keep true, one after the other.
\<close>

definition agrees :: "todo list \<Rightarrow> event list \<Rightarrow> bool" where
  "agrees L es =
     (map id_t L = filter (\<lambda>i. track i es \<noteq> None) (added_ids es)
      \<and> (\<forall>t\<in>set L. track (id_t t) es = Some t)
      \<and> length L + deletes_hit [] es = length (added_ids es))"

subsection \<open>Data for the examples\<close>

text \<open>A clock, a completed task, and a component in the middle of a removal.\<close>

definition sample_clock :: "nat \<Rightarrow> int" where
  "sample_clock k = 1700000000000 + int k"

definition milk :: todo where
  "milk = \<lparr> id_t = JNum 1000, text_t = JStr ''Buy milk'',
           completed = JBool True, createdAt = JNum 1001 \<rparr>"

definition sample_app :: app where
  "sample_app =
     \<lparr> todos = [milk], inputValue = ''abc'', exitingIds = [JNum 1000],
       timers = [(400, [milk])] \<rparr>"

text \<open>A component with two tasks, the second one completed.\<close>

definition task_a :: todo where
  "task_a = \<lparr> id_t = JNum 1, text_t = JStr ''A'', completed = JBool False, createdAt = JNum 1 \<rparr>"

definition task_b :: todo where
  "task_b = \<lparr> id_t = JNum 2, text_t = JStr ''B'', completed = JBool True, createdAt = JNum 2 \<rparr>"

definition two_tasks :: app where
  "two_tasks = \<lparr> todos = [task_a, task_b], inputValue = [], exitingIds = [], timers = [] \<rparr>"

text \<open>
  Stored entries: \<^verbatim>\<open>{id: 5, text: "x", completed: false}\<close>, the same with
  \<^verbatim>\<open>id: 0\<close>, \<^verbatim>\<open>{text: "y"}\<close>, and \<^verbatim>\<open>{id: 5, completed: false}\<close>, which
  has no text.
\<close>

definition entry5 :: json where
  "entry5 = JObj [(''id'', JNum 5), (''text'', JStr ''x''), (''completed'', JBool False)]"

definition entry0 :: json where
  "entry0 = JObj [(''id'', JNum 0), (''text'', JStr ''x''), (''completed'', JBool False)]"

definition entry_text_only :: json where
  "entry_text_only = JObj [(''text'', JStr ''y'')]"

definition entry_no_text :: json where
  "entry_no_text = JObj [(''id'', JNum 5), (''completed'', JBool False)]"

text \<open>A history for the examples: two tasks added, a blank add, edits, a toggle, deletes.\<close>

definition sample_history :: "event list" where
  "sample_history =
     [Add '' A '' 1 2, Add ''  '' 2 2, Add ''B'' 3 4, Edit (JNum 3) ''B2 '',
      Edit (JNum 3) ''  '', Toggle (JNum 3), Delete (JNum 9), Delete (JNum 1)]"

section \<open>Properties\<close>

subsection \<open>Saving and loading\<close>

lemma nonzero_int_truthy: "nonzero_int v \<Longrightarrow> truthy v"
  by (cases v) simp_all

lemma nonempty_string_truthy: "nonempty_string v \<Longrightarrow> truthy v"
  by (cases v) simp_all

lemma is_boolean_or_false: "is_boolean v \<Longrightarrow> (if truthy v then v else JBool False) = v"
  by (cases v) auto

lemma repairTodo_well_formed:
  assumes "well_formed t"
  shows "repairTodo clk k (todo_json t) = Some (t, k)"
proof -
  from assms have i: "truthy (id_t t)" and x: "truthy (text_t t)" and c: "truthy (createdAt t)"
    by (simp_all add: well_formed_def nonzero_int_truthy nonempty_string_truthy)
  from assms have "is_boolean (completed t)"
    by (simp add: well_formed_def)
  then have b: "(if truthy (completed t) then completed t else JBool False) = completed t"
    by (rule is_boolean_or_false)
  show ?thesis
    using i x c b by (simp add: repairTodo_def todo_json_def)
qed

lemma repairAll_well_formed:
  "list_all well_formed L \<Longrightarrow> repairAll clk k (map todo_json L) = Some L"
  by (induction L) (simp_all add: repairTodo_well_formed)

text \<open>
  C1. Round trip: when every task of the list is well formed, loading what a
  successful save wrote gives the same list back, whatever the clock and whatever the
  slot held before. The exiting marks are a cell of their own, which the save does not
  read: the component that starts from the saved slot has the same tasks and no task
  marked as exiting.
\<close>

theorem load_after_save:
  assumes "list_all well_formed (todos s)"
  shows "loadTodosFromStorage clk (saveTodos True (todos s) old) = todos s
       \<and> todos (App_init clk (saveTodos True (todos s) old)) = todos s
       \<and> exitingIds (App_init clk (saveTodos True (todos s) old)) = []"
proof -
  have "loadTodosFromStorage clk (saveTodos True (todos s) old) = todos s"
    using repairAll_well_formed [OF assms, of clk 0]
    by (cases "todos s") (simp_all add: saveTodos_def todos_json_def)
  then show ?thesis by (simp add: App_init_def)
qed

theorem load_after_save_witness:
  "list_all well_formed (todos sample_app)
   \<and> loadTodosFromStorage sample_clock (saveTodos True (todos sample_app) NoItem) = [milk]
   \<and> exitingIds sample_app = [JNum 1000]
   \<and> exitingIds (App_init sample_clock (saveTodos True (todos sample_app) NoItem)) = []"
  using load_after_save [of sample_app sample_clock NoItem]
  by (simp add: sample_app_def milk_def well_formed_def)

lemma repairTodo_None: "repairTodo clk k e = None \<longleftrightarrow> e = JNull"
  by (simp add: repairTodo_def Let_def)

lemma repairAll_null: "JNull \<in> set es \<Longrightarrow> repairAll clk k es = None"
proof (induction es arbitrary: k)
  case Nil
  then show ?case by simp
next
  case (Cons e es)
  show ?case
  proof (cases "e = JNull")
    case True
    then show ?thesis by (simp add: repairTodo_def)
  next
    case False
    with Cons.prems have "JNull \<in> set es" by simp
    then have "repairAll clk k' es = None" for k' by (rule Cons.IH)
    then show ?thesis by (simp split: option.splits)
  qed
qed

lemma repairAll_entries:
  "JNull \<notin> set es \<Longrightarrow>
   \<exists>ts. repairAll clk k es = Some ts \<and> length ts = length es \<and>
        (\<forall>i<length es. \<exists>k' k''. repairTodo clk k' (es ! i) = Some (ts ! i, k''))"
proof (induction es arbitrary: k)
  case Nil
  then show ?case by simp
next
  case (Cons e es)
  from Cons.prems have "e \<noteq> JNull" by auto
  then obtain t k1 where r: "repairTodo clk k e = Some (t, k1)"
    using repairTodo_None [of clk k e] by (cases "repairTodo clk k e") auto
  from Cons.prems have "JNull \<notin> set es" by simp
  from Cons.IH [OF this, of k1] obtain ts where
    ts: "repairAll clk k1 es = Some ts" "length ts = length es"
        "\<forall>i<length es. \<exists>k' k''. repairTodo clk k' (es ! i) = Some (ts ! i, k'')"
    by blast
  have "\<exists>k' k''. repairTodo clk k' ((e # es) ! i) = Some ((t # ts) ! i, k'')"
    if "i < length (e # es)" for i
  proof (cases i)
    case 0
    with r show ?thesis by auto
  next
    case (Suc j)
    with that ts(3) show ?thesis by simp
  qed
  with r ts(1,2) show ?case by simp
qed

lemma load_without_null:
  assumes "JNull \<notin> set entries"
  shows "\<exists>ts. loadTodosFromStorage clk (JsonText (JArr entries)) = ts
             \<and> length ts = length entries
             \<and> (\<forall>i<length entries. \<exists>k' k''.
                   repairTodo clk k' (entries ! i) = Some (ts ! i, k''))"
proof -
  from repairAll_entries [OF assms, of clk 0] obtain ts where
    ts: "repairAll clk 0 entries = Some ts" "length ts = length entries"
        "\<forall>i<length entries. \<exists>k' k''. repairTodo clk k' (entries ! i) = Some (ts ! i, k'')"
    by blast
  have "loadTodosFromStorage clk (JsonText (JArr entries)) = ts"
    using ts(1,2) by (cases entries) simp_all
  with ts(2,3) show ?thesis by simp
qed

lemma repairTodo_createdAt:
  assumes "repairTodo clk k e = Some (t, k')" and "\<not> truthy_opt (get_prop e ''createdAt'')"
  shows "(truthy_opt (get_prop e ''id'') \<longrightarrow>
            get_prop e ''id'' = Some (createdAt t) \<and> id_t t = createdAt t)
       \<and> (\<not> truthy_opt (get_prop e ''id'') \<longrightarrow>
            id_t t = JNum (clk k) \<and> createdAt t = JNum (clk (Suc k)))"
proof (cases "get_prop e ''id''")
  case None
  with assms show ?thesis
    by (cases "get_prop e ''createdAt''") (auto simp: repairTodo_def Let_def split: if_splits)
next
  case (Some v)
  with assms show ?thesis
    by (cases "get_prop e ''createdAt''") (auto simp: repairTodo_def Let_def split: if_splits)
qed

text \<open>
  C2, as the code has it. The load returns the empty list when the key is absent, when
  it holds the empty string, when the text does not parse, when the parsed value is not
  a non-empty array, and also when an entry of the array is \<^verbatim>\<open>null\<close> (the
  \<^verbatim>\<open>TypeError\<close> is caught like the parse error); it is a total function, so nothing
  escapes. For a non-empty array without a \<^verbatim>\<open>null\<close> entry the result has one task
  per entry, in order, and an entry whose \<^verbatim>\<open>createdAt\<close> is missing or falsy gets
  the entry's id when that id is truthy, and otherwise a clock reading, the one right
  after the reading that became its id. The entry
  \<^verbatim>\<open>{id: 5, text: "x", completed: false}\<close> loads with \<^verbatim>\<open>createdAt\<close> 5.
\<close>

theorem load_recovers_and_repairs:
  "loadTodosFromStorage clk NoItem = []
   \<and> loadTodosFromStorage clk EmptyText = []
   \<and> loadTodosFromStorage clk BadText = []
   \<and> (\<not> nonempty_array v \<longrightarrow> loadTodosFromStorage clk (JsonText v) = [])
   \<and> (JNull \<in> set entries \<longrightarrow> loadTodosFromStorage clk (JsonText (JArr entries)) = [])
   \<and> (JNull \<notin> set entries \<longrightarrow>
        length (loadTodosFromStorage clk (JsonText (JArr entries))) = length entries
        \<and> (\<forall>i<length entries.
              \<not> truthy_opt (get_prop (entries ! i) ''createdAt'') \<longrightarrow>
              (truthy_opt (get_prop (entries ! i) ''id'') \<longrightarrow>
                 get_prop (entries ! i) ''id'' =
                   Some (createdAt (loadTodosFromStorage clk (JsonText (JArr entries)) ! i)))
              \<and> (\<not> truthy_opt (get_prop (entries ! i) ''id'') \<longrightarrow>
                 (\<exists>k. id_t (loadTodosFromStorage clk (JsonText (JArr entries)) ! i) = JNum (clk k)
                    \<and> createdAt (loadTodosFromStorage clk (JsonText (JArr entries)) ! i)
                        = JNum (clk (Suc k))))))
   \<and> map createdAt (loadTodosFromStorage clk (JsonText (JArr [entry5]))) = [JNum 5]"
proof -
  have bad: "\<not> nonempty_array v \<longrightarrow> loadTodosFromStorage clk (JsonText v) = []"
    by (cases v) simp_all
  have null: "JNull \<in> set entries \<longrightarrow> loadTodosFromStorage clk (JsonText (JArr entries)) = []"
    by (simp add: repairAll_null)
  have rep: "length (loadTodosFromStorage clk (JsonText (JArr entries))) = length entries
        \<and> (\<forall>i<length entries.
              \<not> truthy_opt (get_prop (entries ! i) ''createdAt'') \<longrightarrow>
              (truthy_opt (get_prop (entries ! i) ''id'') \<longrightarrow>
                 get_prop (entries ! i) ''id'' =
                   Some (createdAt (loadTodosFromStorage clk (JsonText (JArr entries)) ! i)))
              \<and> (\<not> truthy_opt (get_prop (entries ! i) ''id'') \<longrightarrow>
                 (\<exists>k. id_t (loadTodosFromStorage clk (JsonText (JArr entries)) ! i) = JNum (clk k)
                    \<and> createdAt (loadTodosFromStorage clk (JsonText (JArr entries)) ! i)
                        = JNum (clk (Suc k)))))"
    if nn: "JNull \<notin> set entries"
  proof -
    from load_without_null [OF nn, of clk] obtain ts where
      ld: "loadTodosFromStorage clk (JsonText (JArr entries)) = ts"
      and ts: "length ts = length entries"
          "\<forall>i<length entries. \<exists>k' k''. repairTodo clk k' (entries ! i) = Some (ts ! i, k'')"
      by blast
    show ?thesis
      unfolding ld using ts repairTodo_createdAt by blast
  qed
  have ex: "map createdAt (loadTodosFromStorage clk (JsonText (JArr [entry5]))) = [JNum 5]"
    by (simp add: entry5_def repairTodo_def)
  from bad null rep ex show ?thesis by simp
qed

theorem load_recovers_and_repairs_witness:
  "\<not> nonempty_array (JStr ''todos'')
   \<and> loadTodosFromStorage sample_clock (JsonText (JStr ''todos'')) = []
   \<and> JNull \<notin> set [entry5, entry_text_only]
   \<and> map createdAt (loadTodosFromStorage sample_clock (JsonText (JArr [entry5, entry_text_only])))
       = [JNum 5, JNum (sample_clock 1)]
   \<and> map id_t (loadTodosFromStorage sample_clock (JsonText (JArr [entry5, entry_text_only])))
       = [JNum 5, JNum (sample_clock 0)]
   \<and> JNull \<in> set [entry_text_only, JNull]
   \<and> loadTodosFromStorage sample_clock (JsonText (JArr [entry_text_only, JNull])) = []"
  using load_recovers_and_repairs [of sample_clock "JStr ''todos''" "[entry5, entry_text_only]"]
    load_recovers_and_repairs [of sample_clock "JStr ''todos''" "[entry_text_only, JNull]"]
  by (simp add: entry5_def entry_text_only_def repairTodo_def)

text \<open>
  The claim as written fails on two stored arrays: with a \<^verbatim>\<open>null\<close> beside it, the
  entry \<^verbatim>\<open>{id: 5, text: "x", completed: false}\<close> is not repaired but lost with the
  whole list; and an entry whose id is present but 0 gets a clock reading as
  \<^verbatim>\<open>createdAt\<close>, not its id.
\<close>

theorem load_repair_counterexample:
  "nonempty_array (JArr [entry5, JNull])
   \<and> get_prop entry5 ''createdAt'' = None \<and> get_prop entry5 ''id'' = Some (JNum 5)
   \<and> loadTodosFromStorage sample_clock (JsonText (JArr [entry5, JNull])) = []
   \<and> get_prop entry0 ''createdAt'' = None \<and> get_prop entry0 ''id'' = Some (JNum 0)
   \<and> map createdAt (loadTodosFromStorage sample_clock (JsonText (JArr [entry0])))
       = [JNum 1700000000001]"
  by (simp add: entry5_def entry0_def repairTodo_def sample_clock_def)

subsection \<open>The handlers, one call at a time\<close>

lemma map_unmatched:
  "\<forall>t\<in>set ts. id_t t \<noteq> i \<Longrightarrow> map (\<lambda>t. if id_t t = i then f t else t) ts = ts"
  by (induction ts) simp_all

text \<open>
  C3. Two submissions that read the same clock value get the same id: starting from the
  empty list, adding "A" and then "B" while the clock shows 1000 leaves two tasks with
  id 1000. \<^verbatim>\<open>addTodo\<close> takes \<^verbatim>\<open>Date.now()\<close> as the id and looks at no id already
  in the list.
\<close>

theorem addTodo_same_millisecond:
  "map id_t (todos (run [Add ''A'' 1000 1000, Add ''B'' 1000 1000] empty_app))
     = [JNum 1000, JNum 1000]
   \<and> \<not> distinct (map id_t (todos (run [Add ''A'' 1000 1000, Add ''B'' 1000 1000] empty_app)))"
  by (simp add: empty_app_def addTodo_def trim_def is_space_def)

text \<open>
  C4. Submitting \<open>raw\<close>: when it trims to the empty string the list stays as it is
  (and \<^verbatim>\<open>addTodo\<close> changes no cell at all); otherwise the list grows at its end by
  exactly one task, with the trimmed text, not completed, its id the first clock
  reading and its creation time the second, and the tasks before it are the old list.
  The empty input and the input of three blanks leave the list as it is.
\<close>

theorem addTodo_appends:
  "todos (step (Add raw n1 n2) s) =
     (if trim raw = [] then todos s
      else todos s @ [\<lparr> id_t = JNum n1, text_t = JStr (trim raw),
                        completed = JBool False, createdAt = JNum n2 \<rparr>])
   \<and> (trim (inputValue s) = [] \<longrightarrow> addTodo n1 n2 s = s)
   \<and> todos (step (Add [] n1 n2) s) = todos s
   \<and> todos (step (Add ''   '' n1 n2) s) = todos s"
  by (simp add: addTodo_def Let_def trim_def is_space_def)

theorem addTodo_appends_witness:
  "trim (inputValue two_tasks) = [] \<and> addTodo 7 8 two_tasks = two_tasks
   \<and> todos (step (Add '' C  '' 7 8) two_tasks) =
       [task_a, task_b,
        \<lparr> id_t = JNum 7, text_t = JStr ''C'', completed = JBool False, createdAt = JNum 8 \<rparr>]"
  using addTodo_appends [of "'' C  ''" 7 8 two_tasks]
  by (simp add: two_tasks_def trim_def is_space_def)

text \<open>
  C5. Editing task \<open>i\<close> with \<open>raw\<close>: when \<open>raw\<close> trims to the empty string nothing
  changes, so the text of the task is kept and not cleared; otherwise the list keeps its
  length, each task with id \<open>i\<close> gets the trimmed text and keeps its other fields, and
  each other task is unchanged. When no task has id \<open>i\<close> nothing changes.
\<close>

theorem updateTodo_replaces_text:
  "(trim raw = [] \<longrightarrow> updateTodo i raw s = s)
   \<and> updateTodo i [] s = s
   \<and> (trim raw \<noteq> [] \<longrightarrow>
        length (todos (updateTodo i raw s)) = length (todos s)
        \<and> (\<forall>k<length (todos s).
              (id_t (todos s ! k) = i \<longrightarrow>
                 todos (updateTodo i raw s) ! k = (todos s ! k)\<lparr> text_t := JStr (trim raw) \<rparr>)
              \<and> (id_t (todos s ! k) \<noteq> i \<longrightarrow>
                 todos (updateTodo i raw s) ! k = todos s ! k)))
   \<and> ((\<forall>t\<in>set (todos s). id_t t \<noteq> i) \<longrightarrow> updateTodo i raw s = s)
   \<and> inputValue (updateTodo i raw s) = inputValue s
   \<and> exitingIds (updateTodo i raw s) = exitingIds s
   \<and> timers (updateTodo i raw s) = timers s"
proof -
  have none: "updateTodo i raw s = s" if "\<forall>t\<in>set (todos s). id_t t \<noteq> i"
    using map_unmatched [OF that] by (simp add: updateTodo_def Let_def)
  have blank: "updateTodo i [] s = s"
    by (simp add: updateTodo_def trim_def)
  from none blank show ?thesis
    by (simp add: updateTodo_def Let_def)
qed

theorem updateTodo_replaces_text_witness:
  "trim ''  '' = [] \<and> updateTodo (JNum 2) ''  '' two_tasks = two_tasks
   \<and> trim '' milk '' \<noteq> []
   \<and> todos (updateTodo (JNum 2) '' milk '' two_tasks) = [task_a, task_b\<lparr> text_t := JStr ''milk'' \<rparr>]
   \<and> map id_t (todos two_tasks) = [JNum 1, JNum 2]
   \<and> updateTodo (JNum 3) '' milk '' two_tasks = two_tasks"
  using updateTodo_replaces_text [of "''  ''" "JNum 2" two_tasks]
    updateTodo_replaces_text [of "'' milk ''" "JNum 2" two_tasks]
    updateTodo_replaces_text [of "'' milk ''" "JNum 3" two_tasks]
  by (simp add: two_tasks_def task_a_def task_b_def trim_def is_space_def updateTodo_def)

text \<open>
  C9. Toggling task \<open>i\<close>: the list keeps its length; every task keeps its id, its
  text and its creation time; each task with id \<open>i\<close> gets the negation of its
  completion flag; each other task is unchanged. When no task has id \<open>i\<close> nothing
  changes, and the other cells of the component are never touched.
\<close>

theorem toggleComplete_frame:
  "length (todos (toggleComplete i s)) = length (todos s)
   \<and> (\<forall>k<length (todos s).
         id_t (todos (toggleComplete i s) ! k) = id_t (todos s ! k)
         \<and> text_t (todos (toggleComplete i s) ! k) = text_t (todos s ! k)
         \<and> createdAt (todos (toggleComplete i s) ! k) = createdAt (todos s ! k)
         \<and> (id_t (todos s ! k) = i \<longrightarrow>
              completed (todos (toggleComplete i s) ! k)
                = JBool (\<not> truthy (completed (todos s ! k))))
         \<and> (id_t (todos s ! k) \<noteq> i \<longrightarrow>
              todos (toggleComplete i s) ! k = todos s ! k))
   \<and> ((\<forall>t\<in>set (todos s). id_t t \<noteq> i) \<longrightarrow> toggleComplete i s = s)
   \<and> inputValue (toggleComplete i s) = inputValue s
   \<and> exitingIds (toggleComplete i s) = exitingIds s
   \<and> timers (toggleComplete i s) = timers s"
proof -
  have none: "toggleComplete i s = s" if "\<forall>t\<in>set (todos s). id_t t \<noteq> i"
    using map_unmatched [OF that] by (simp add: toggleComplete_def)
  from none show ?thesis
    by (simp add: toggleComplete_def)
qed

theorem toggleComplete_frame_witness:
  "todos (toggleComplete (JNum 1) two_tasks) = [task_a\<lparr> completed := JBool True \<rparr>, task_b]
   \<and> todos (toggleComplete (JNum 2) two_tasks) = [task_a, task_b\<lparr> completed := JBool False \<rparr>]
   \<and> map id_t (todos two_tasks) = [JNum 1, JNum 2]
   \<and> toggleComplete (JNum 3) two_tasks = two_tasks"
  using toggleComplete_frame [of "JNum 1" two_tasks] toggleComplete_frame [of "JNum 3" two_tasks]
  by (simp add: two_tasks_def task_a_def task_b_def toggleComplete_def)

subsection \<open>Clearing the completed tasks\<close>

lemma clearCompleted_some:
  assumes "\<exists>t\<in>set (todos s). is_completed t"
  shows "clearCompleted s =
           s\<lparr> exitingIds := map id_t (filter is_completed (todos s)),
              timers := timers s @ [(400, todos s)] \<rparr>"
proof -
  from assms have "filter is_completed (todos s) \<noteq> []"
    by (simp add: filter_empty_conv)
  then show ?thesis
    by (simp add: clearCompleted_def Let_def is_completed_def [abs_def])
qed

lemma clearCompleted_none:
  assumes "\<not> (\<exists>t\<in>set (todos s). is_completed t)"
  shows "clearCompleted s = s"
proof -
  from assms have "filter is_completed (todos s) = []"
    by (simp add: filter_empty_conv)
  then show ?thesis
    by (simp add: clearCompleted_def Let_def is_completed_def [abs_def])
qed

lemma filter_none_completed:
  "\<not> (\<exists>t\<in>set ts. is_completed t) \<Longrightarrow> filter (\<lambda>t. \<not> is_completed t) ts = ts"
  by (induction ts) simp_all

lemma timeout_fires_Cons:
  "timers s = (d, c) # rest \<Longrightarrow>
   timeout_fires s = s\<lparr> todos := filter (\<lambda>t. \<not> is_completed t) c, exitingIds := [], timers := rest \<rparr>"
  by (simp add: timeout_fires_def is_completed_def [abs_def])

lemma timeout_fires_Nil: "timers s = [] \<Longrightarrow> timeout_fires s = s"
  by (simp add: timeout_fires_def)

lemma fire_all_timers:
  "timers s = ps @ [(d, c)] \<Longrightarrow>
   (timeout_fires ^^ Suc (length ps)) s =
     s\<lparr> todos := filter (\<lambda>t. \<not> is_completed t) c, exitingIds := [], timers := [] \<rparr>"
proof (induction ps arbitrary: s)
  case Nil
  then have "timers s = (d, c) # []" by simp
  from timeout_fires_Cons [OF this] show ?case by simp
next
  case (Cons p ps)
  obtain d' c' where p: "p = (d', c')" by (cases p)
  with Cons.prems have t: "timers s = (d', c') # (ps @ [(d, c)])" by simp
  note fired = timeout_fires_Cons [OF t]
  then have "timers (timeout_fires s) = ps @ [(d, c)]" by simp
  from Cons.IH [OF this] have
    "(timeout_fires ^^ Suc (length ps)) (timeout_fires s) =
       s\<lparr> todos := filter (\<lambda>t. \<not> is_completed t) c, exitingIds := [], timers := [] \<rparr>"
    by (simp add: fired)
  then show ?case
    by (simp add: funpow_swap1)
qed

text \<open>
  C6. When some task is completed, \<^verbatim>\<open>clearCompleted\<close> leaves the list as it is for
  the moment, marks exactly the completed tasks as exiting and schedules the removal
  with the fixed delay of 400 ms. Once that callback has run (after the callbacks of
  earlier calls, if any are pending), the list is exactly the tasks that were not
  completed when \<^verbatim>\<open>clearCompleted\<close> was called, in their order, and no task is
  marked as exiting. When no task is completed nothing is scheduled, and with no
  earlier removal pending the list is and stays all its tasks, none completed. The
  scenario: from the empty list, adding "Buy milk" gives one task, not completed;
  toggling it makes it completed; clearing and letting the delay pass leaves the empty
  list.
\<close>

theorem clearCompleted_removes_completed:
  "((\<exists>t\<in>set (todos s). is_completed t) \<longrightarrow>
      todos (clearCompleted s) = todos s
      \<and> exitingIds (clearCompleted s) = map id_t (filter is_completed (todos s))
      \<and> timers (clearCompleted s) = timers s @ [(400, todos s)]
      \<and> todos ((timeout_fires ^^ Suc (length (timers s))) (clearCompleted s))
          = filter (\<lambda>t. \<not> is_completed t) (todos s)
      \<and> exitingIds ((timeout_fires ^^ Suc (length (timers s))) (clearCompleted s)) = [])
   \<and> (timers s = [] \<longrightarrow>
        todos (timeout_fires (clearCompleted s)) = filter (\<lambda>t. \<not> is_completed t) (todos s)
        \<and> timers (timeout_fires (clearCompleted s)) = []
        \<and> ((\<exists>t\<in>set (todos s). is_completed t) \<longrightarrow>
              exitingIds (timeout_fires (clearCompleted s)) = []))
   \<and> todos (run [Add ''Buy milk'' n1 n2] empty_app) =
        [\<lparr> id_t = JNum n1, text_t = JStr ''Buy milk'', completed = JBool False,
           createdAt = JNum n2 \<rparr>]
   \<and> todos (run [Add ''Buy milk'' n1 n2, Toggle (JNum n1)] empty_app) =
        [\<lparr> id_t = JNum n1, text_t = JStr ''Buy milk'', completed = JBool True,
           createdAt = JNum n2 \<rparr>]
   \<and> todos (run [Add ''Buy milk'' n1 n2, Toggle (JNum n1), ClearCompleted] empty_app) =
        [\<lparr> id_t = JNum n1, text_t = JStr ''Buy milk'', completed = JBool True,
           createdAt = JNum n2 \<rparr>]
   \<and> exitingIds (run [Add ''Buy milk'' n1 n2, Toggle (JNum n1), ClearCompleted] empty_app) =
        [JNum n1]
   \<and> todos (run [Add ''Buy milk'' n1 n2, Toggle (JNum n1), ClearCompleted, Timeout] empty_app)
        = []"
proof -
  have now: "todos (clearCompleted s) = todos s
      \<and> exitingIds (clearCompleted s) = map id_t (filter is_completed (todos s))
      \<and> timers (clearCompleted s) = timers s @ [(400, todos s)]
      \<and> todos ((timeout_fires ^^ Suc (length (timers s))) (clearCompleted s))
          = filter (\<lambda>t. \<not> is_completed t) (todos s)
      \<and> exitingIds ((timeout_fires ^^ Suc (length (timers s))) (clearCompleted s)) = []"
    if c: "\<exists>t\<in>set (todos s). is_completed t"
  proof -
    have t: "timers (clearCompleted s) = timers s @ [(400, todos s)]"
      by (simp add: clearCompleted_some [OF c])
    from fire_all_timers [OF t] show ?thesis
      by (simp add: clearCompleted_some [OF c])
  qed
  have later: "todos (timeout_fires (clearCompleted s)) = filter (\<lambda>t. \<not> is_completed t) (todos s)
        \<and> timers (timeout_fires (clearCompleted s)) = []
        \<and> ((\<exists>t\<in>set (todos s). is_completed t) \<longrightarrow>
              exitingIds (timeout_fires (clearCompleted s)) = [])"
    if t: "timers s = []"
  proof (cases "\<exists>t\<in>set (todos s). is_completed t")
    case True
    have "timers (clearCompleted s) = (400, todos s) # []"
      using t by (simp add: clearCompleted_some [OF True])
    from timeout_fires_Cons [OF this] show ?thesis
      by (simp add: clearCompleted_some [OF True])
  next
    case False
    then show ?thesis
      using t by (simp add: clearCompleted_none timeout_fires_Nil filter_none_completed)
  qed
  have trim_milk: "trim ''Buy milk'' = ''Buy milk''"
    by (simp add: trim_def is_space_def)
  have scenario:
    "todos (run [Add ''Buy milk'' n1 n2] empty_app) =
        [\<lparr> id_t = JNum n1, text_t = JStr ''Buy milk'', completed = JBool False,
           createdAt = JNum n2 \<rparr>]"
    "todos (run [Add ''Buy milk'' n1 n2, Toggle (JNum n1)] empty_app) =
        [\<lparr> id_t = JNum n1, text_t = JStr ''Buy milk'', completed = JBool True,
           createdAt = JNum n2 \<rparr>]"
    "todos (run [Add ''Buy milk'' n1 n2, Toggle (JNum n1), ClearCompleted] empty_app) =
        [\<lparr> id_t = JNum n1, text_t = JStr ''Buy milk'', completed = JBool True,
           createdAt = JNum n2 \<rparr>]"
    "exitingIds (run [Add ''Buy milk'' n1 n2, Toggle (JNum n1), ClearCompleted] empty_app) =
        [JNum n1]"
    "todos (run [Add ''Buy milk'' n1 n2, Toggle (JNum n1), ClearCompleted, Timeout] empty_app)
        = []"
    by (simp_all add: empty_app_def addTodo_def trim_milk toggleComplete_def
        clearCompleted_def timeout_fires_def)
  from now later scenario show ?thesis by simp
qed

theorem clearCompleted_removes_completed_witness:
  "filter is_completed (todos two_tasks) = [task_b]
   \<and> timers two_tasks = []
   \<and> exitingIds (clearCompleted two_tasks) = [JNum 2]
   \<and> timers (clearCompleted two_tasks) = [(400, [task_a, task_b])]
   \<and> todos (clearCompleted two_tasks) = [task_a, task_b]
   \<and> todos (timeout_fires (clearCompleted two_tasks)) = [task_a]
   \<and> exitingIds (timeout_fires (clearCompleted two_tasks)) = []"
  using clearCompleted_removes_completed [of two_tasks 1000 1000]
  by (simp add: two_tasks_def task_a_def task_b_def is_completed_def)

lemma step_keeps_oldest_timer:
  assumes "user_event e" and "timers s = p # ps"
  shows "\<exists>qs. timers (step e s) = p # qs"
proof (cases e)
  case (Add raw n1 n2)
  with assms show ?thesis by (simp add: addTodo_def Let_def)
next
  case (Delete i)
  with assms show ?thesis by (simp add: deleteTodo_def)
next
  case (Toggle i)
  with assms show ?thesis by (simp add: toggleComplete_def)
next
  case (Edit i raw)
  with assms show ?thesis by (simp add: updateTodo_def Let_def)
next
  case ClearCompleted
  with assms show ?thesis by (simp add: clearCompleted_def Let_def)
next
  case Timeout
  with assms show ?thesis by simp
qed

lemma run_keeps_oldest_timer:
  "list_all user_event es \<Longrightarrow> timers s = p # ps \<Longrightarrow> \<exists>qs. timers (run es s) = p # qs"
proof (induction es arbitrary: s ps)
  case Nil
  then show ?case by simp
next
  case (Cons e es)
  from Cons.prems have "user_event e" and rest: "list_all user_event es" by simp_all
  from step_keeps_oldest_timer [OF this(1) Cons.prems(2)]
  obtain qs where "timers (step e s) = p # qs" by blast
  from Cons.IH [OF rest this] show ?case by simp
qed

text \<open>
  C10. The callback that \<^verbatim>\<open>clearCompleted\<close> schedules filters the list it captured
  when it was called. So, for a list with a completed task and no earlier removal
  pending: whatever handlers run while the callback is pending, once it runs the list
  is the not-completed tasks of the list at the call, as if none of them had run. In
  particular a task added in between (the add succeeds: the list then ends with it) is
  gone afterwards: the list is shorter than before the add, and when the id of the new
  task was not in use, no task has that id.
\<close>

theorem clearCompleted_discards_later_changes:
  assumes "\<exists>t\<in>set (todos s). is_completed t" and "timers s = []"
  shows "(list_all user_event es \<longrightarrow>
            todos (timeout_fires (run es (clearCompleted s)))
              = filter (\<lambda>t. \<not> is_completed t) (todos s))
       \<and> (trim raw \<noteq> [] \<longrightarrow>
            todos (step (Add raw n1 n2) (clearCompleted s)) =
              todos s @ [\<lparr> id_t = JNum n1, text_t = JStr (trim raw),
                            completed = JBool False, createdAt = JNum n2 \<rparr>]
            \<and> todos (timeout_fires (step (Add raw n1 n2) (clearCompleted s)))
                = filter (\<lambda>t. \<not> is_completed t) (todos s)
            \<and> length (todos (timeout_fires (step (Add raw n1 n2) (clearCompleted s))))
                < length (todos s)
            \<and> ((\<forall>t\<in>set (todos s). id_t t \<noteq> JNum n1) \<longrightarrow>
                 (\<forall>t\<in>set (todos (timeout_fires (step (Add raw n1 n2) (clearCompleted s)))).
                    id_t t \<noteq> JNum n1)))"
proof -
  have cc: "timers (clearCompleted s) = (400, todos s) # []"
    using assms(2) by (simp add: clearCompleted_some [OF assms(1)])
  have general: "todos (timeout_fires (run es' (clearCompleted s)))
              = filter (\<lambda>t. \<not> is_completed t) (todos s)" if "list_all user_event es'" for es'
  proof -
    from run_keeps_oldest_timer [OF that cc]
    obtain qs where "timers (run es' (clearCompleted s)) = (400, todos s) # qs" by blast
    from timeout_fires_Cons [OF this] show ?thesis by simp
  qed
  have added: "todos (step (Add raw n1 n2) (clearCompleted s)) =
              todos s @ [\<lparr> id_t = JNum n1, text_t = JStr (trim raw),
                            completed = JBool False, createdAt = JNum n2 \<rparr>]"
    if "trim raw \<noteq> []"
    using that by (simp add: addTodo_def Let_def clearCompleted_some [OF assms(1)])
  have fired: "todos (timeout_fires (step (Add raw n1 n2) (clearCompleted s)))
                = filter (\<lambda>t. \<not> is_completed t) (todos s)"
    using general [of "[Add raw n1 n2]"] by simp
  have shorter: "length (filter (\<lambda>t. \<not> is_completed t) (todos s)) < length (todos s)"
  proof -
    from assms(1) obtain t where "t \<in> set (todos s)" and "\<not> \<not> is_completed t" by auto
    then show ?thesis by (rule length_filter_less)
  qed
  from general [of es] added fired shorter show ?thesis by auto
qed

theorem clearCompleted_discards_later_changes_witness:
  "filter is_completed (todos two_tasks) = [task_b] \<and> timers two_tasks = []
   \<and> list_all user_event [Add ''C'' 7 8, Toggle (JNum 1), Delete (JNum 1)]
   \<and> todos (run [Add ''C'' 7 8, Toggle (JNum 1), Delete (JNum 1)] (clearCompleted two_tasks))
       = [task_b, \<lparr> id_t = JNum 7, text_t = JStr ''C'', completed = JBool False,
                    createdAt = JNum 8 \<rparr>]
   \<and> todos (timeout_fires
        (run [Add ''C'' 7 8, Toggle (JNum 1), Delete (JNum 1)] (clearCompleted two_tasks)))
       = [task_a]
   \<and> trim ''C'' \<noteq> []
   \<and> todos (step (Add ''C'' 7 8) (clearCompleted two_tasks)) =
       [task_a, task_b, \<lparr> id_t = JNum 7, text_t = JStr ''C'', completed = JBool False,
                          createdAt = JNum 8 \<rparr>]
   \<and> todos (timeout_fires (step (Add ''C'' 7 8) (clearCompleted two_tasks))) = [task_a]
   \<and> map id_t (todos two_tasks) = [JNum 1, JNum 2]"
proof -
  have h1: "\<exists>t\<in>set (todos two_tasks). is_completed t"
    by (simp add: two_tasks_def task_b_def is_completed_def)
  have h2: "timers two_tasks = []"
    by (simp add: two_tasks_def)
  have tr: "trim ''C'' = ''C''"
    by (simp add: trim_def is_space_def)
  show ?thesis
    using h2
      clearCompleted_discards_later_changes [OF h1 h2,
        of "[Add ''C'' 7 8, Toggle (JNum 1), Delete (JNum 1)]" "''C''" 7 8]
    by (simp add: two_tasks_def task_a_def task_b_def is_completed_def tr
        clearCompleted_def addTodo_def toggleComplete_def deleteTodo_def)
qed

subsection \<open>Texts\<close>

lemma dropWhile_rev_Cons:
  "\<not> P x \<Longrightarrow> rev (dropWhile P (rev (x # xs))) = x # rev (dropWhile P (rev xs))"
  by (simp add: dropWhile_append3)

lemma dropWhile_twice:
  assumes "xs = [] \<or> \<not> P (hd xs)"
  shows "dropWhile P (rev (dropWhile P (rev xs))) = rev (dropWhile P (rev xs))"
proof (cases xs)
  case Nil
  then show ?thesis by simp
next
  case (Cons a list)
  with assms have a: "\<not> P a" by simp
  then have "rev (dropWhile P (rev xs)) = a # rev (dropWhile P (rev list))"
    unfolding Cons by (rule dropWhile_rev_Cons)
  with a show ?thesis by simp
qed

lemma trim_trim: "trim (trim s) = trim s"
proof -
  have "dropWhile is_space s = [] \<or> \<not> is_space (hd (dropWhile is_space s))"
    using hd_dropWhile [of is_space s] by blast
  then have "dropWhile is_space (trim s) = trim s"
    unfolding trim_def by (rule dropWhile_twice)
  then show ?thesis
    by (simp add: trim_def)
qed

lemma has_text_new:
  "trim raw \<noteq> [] \<Longrightarrow> has_text \<lparr> id_t = i, text_t = JStr (trim raw), completed = c, createdAt = a \<rparr>"
  by (simp add: has_text_def trim_trim)

lemma has_text_edited: "trim raw \<noteq> [] \<Longrightarrow> has_text (t\<lparr> text_t := JStr (trim raw) \<rparr>)"
  by (simp add: has_text_def trim_trim)

lemma has_text_toggled: "has_text (t\<lparr> completed := c \<rparr>) = has_text t"
  by (simp add: has_text_def)

lemma step_texts_ok:
  assumes "texts_ok s"
  shows "texts_ok (step e s)"
proof (cases e)
  case (Add raw n1 n2)
  with assms show ?thesis
    by (simp add: texts_ok_def addTodo_def Let_def has_text_new)
next
  case (Delete i)
  with assms show ?thesis
    by (simp add: texts_ok_def deleteTodo_def list_all_iff)
next
  case (Toggle i)
  with assms show ?thesis
    by (auto simp: texts_ok_def toggleComplete_def list_all_iff has_text_toggled)
next
  case (Edit i raw)
  with assms show ?thesis
    by (auto simp: texts_ok_def updateTodo_def Let_def list_all_iff has_text_edited)
next
  case ClearCompleted
  with assms show ?thesis
    by (simp add: texts_ok_def clearCompleted_def Let_def)
next
  case Timeout
  with assms show ?thesis
    by (cases "timers s") (auto simp: texts_ok_def timeout_fires_def list_all_iff)
qed

lemma run_texts_ok: "texts_ok s \<Longrightarrow> texts_ok (run es s)"
  by (induction es arbitrary: s) (simp_all add: step_texts_ok)

lemma repairTodo_text:
  assumes "repairTodo clk k e = Some (t, k')"
  shows "(if truthy_opt (get_prop e ''text'') then get_prop e ''text'' = Some (text_t t)
          else text_t t = JStr [])"
  using assms
  by (cases "get_prop e ''text''") (auto simp: repairTodo_def Let_def split: if_splits)

lemma has_text_iff: "has_text t \<longleftrightarrow> (\<exists>x. text_t t = JStr x \<and> trim x \<noteq> [])"
  by (cases "text_t t") (simp_all add: has_text_def)

lemma repairTodo_has_text:
  assumes "repairTodo clk k e = Some (t, k')"
  shows "has_text t \<longleftrightarrow> (\<exists>x. get_prop e ''text'' = Some (JStr x) \<and> trim x \<noteq> [])"
proof (cases "truthy_opt (get_prop e ''text'')")
  case True
  with repairTodo_text [OF assms] have "get_prop e ''text'' = Some (text_t t)" by simp
  then show ?thesis by (simp add: has_text_iff)
next
  case False
  with repairTodo_text [OF assms] have e: "text_t t = JStr []" by simp
  have "\<not> (\<exists>x. get_prop e ''text'' = Some (JStr x) \<and> trim x \<noteq> [])"
  proof
    assume "\<exists>x. get_prop e ''text'' = Some (JStr x) \<and> trim x \<noteq> []"
    then obtain x where x: "get_prop e ''text'' = Some (JStr x)" "trim x \<noteq> []" by blast
    from x(2) have "x \<noteq> []" by (auto simp: trim_def)
    with x(1) False show False by simp
  qed
  with e show ?thesis by (simp add: has_text_def trim_def)
qed

text \<open>
  C7, as the code has it. Blank submissions are rejected: when every task of the
  component (in the list or captured by a pending removal) has a non-blank text, as in
  the component that starts empty, it is so after every sequence of adds, edits,
  toggles, deletes, clear-completed calls and removals. The load does not keep it: for
  a stored array without \<^verbatim>\<open>null\<close> entry it keeps every entry, none is dropped, and
  an entry whose text is missing or falsy gets the empty string as its text; the loaded
  task has a non-blank text exactly when the stored entry has one.
\<close>

theorem texts_stay_nonblank:
  "(texts_ok s \<longrightarrow> texts_ok (run es s))
   \<and> texts_ok empty_app
   \<and> (JNull \<notin> set entries \<longrightarrow>
        length (loadTodosFromStorage clk (JsonText (JArr entries))) = length entries
        \<and> (\<forall>i<length entries.
              (\<not> truthy_opt (get_prop (entries ! i) ''text'') \<longrightarrow>
                 text_t (loadTodosFromStorage clk (JsonText (JArr entries)) ! i) = JStr [])
              \<and> (has_text (loadTodosFromStorage clk (JsonText (JArr entries)) ! i) \<longleftrightarrow>
                   (\<exists>x. get_prop (entries ! i) ''text'' = Some (JStr x) \<and> trim x \<noteq> []))))"
proof -
  have ops: "texts_ok s \<longrightarrow> texts_ok (run es s)"
    by (simp add: run_texts_ok)
  have init: "texts_ok empty_app"
    by (simp add: texts_ok_def empty_app_def)
  have ld: "length (loadTodosFromStorage clk (JsonText (JArr entries))) = length entries
        \<and> (\<forall>i<length entries.
              (\<not> truthy_opt (get_prop (entries ! i) ''text'') \<longrightarrow>
                 text_t (loadTodosFromStorage clk (JsonText (JArr entries)) ! i) = JStr [])
              \<and> (has_text (loadTodosFromStorage clk (JsonText (JArr entries)) ! i) \<longleftrightarrow>
                   (\<exists>x. get_prop (entries ! i) ''text'' = Some (JStr x) \<and> trim x \<noteq> [])))"
    if nn: "JNull \<notin> set entries"
  proof -
    from load_without_null [OF nn, of clk] obtain ts where
      eq: "loadTodosFromStorage clk (JsonText (JArr entries)) = ts"
      and ts: "length ts = length entries"
          "\<forall>i<length entries. \<exists>k' k''. repairTodo clk k' (entries ! i) = Some (ts ! i, k'')"
      by blast
    have "(\<not> truthy_opt (get_prop (entries ! i) ''text'') \<longrightarrow> text_t (ts ! i) = JStr [])
        \<and> (has_text (ts ! i) \<longleftrightarrow>
             (\<exists>x. get_prop (entries ! i) ''text'' = Some (JStr x) \<and> trim x \<noteq> []))"
      if "i < length entries" for i
    proof -
      from ts(2) that obtain k' k'' where r: "repairTodo clk k' (entries ! i) = Some (ts ! i, k'')"
        by blast
      from repairTodo_text [OF r] repairTodo_has_text [OF r] show ?thesis by simp
    qed
    with ts(1) show ?thesis unfolding eq by simp
  qed
  from ops init ld show ?thesis by blast
qed

theorem texts_stay_nonblank_witness:
  "texts_ok two_tasks
   \<and> texts_ok (run [Add ''  '' 7 8, Edit (JNum 1) [], Toggle (JNum 1), ClearCompleted,
                    Add '' C '' 9 9, Timeout, Delete (JNum 1)] two_tasks)
   \<and> JNull \<notin> set [entry5, entry_no_text]
   \<and> map text_t (loadTodosFromStorage sample_clock (JsonText (JArr [entry5, entry_no_text])))
       = [JStr ''x'', JStr []]"
proof -
  have ok: "texts_ok two_tasks"
    by (simp add: texts_ok_def two_tasks_def task_a_def task_b_def has_text_def trim_def is_space_def)
  show ?thesis
    using ok
      texts_stay_nonblank [of two_tasks
        "[Add ''  '' 7 8, Edit (JNum 1) [], Toggle (JNum 1), ClearCompleted,
          Add '' C '' 9 9, Timeout, Delete (JNum 1)]" "[entry5, entry_no_text]" sample_clock]
    by (simp add: entry5_def entry_no_text_def repairTodo_def)
qed

text \<open>
  The claim as written fails at the load: the stored array with the one entry
  \<^verbatim>\<open>{id: 5, completed: false}\<close> loads as one task whose text is the empty string.
\<close>

theorem load_blank_text_counterexample:
  "todos (App_init sample_clock (JsonText (JArr [entry_no_text]))) =
     [\<lparr> id_t = JNum 5, text_t = JStr [], completed = JBool False, createdAt = JNum 5 \<rparr>]
   \<and> trim [] = []
   \<and> \<not> list_all has_text (todos (App_init sample_clock (JsonText (JArr [entry_no_text]))))"
  by (simp add: App_init_def entry_no_text_def repairTodo_def has_text_def trim_def)

subsection \<open>Histories of adds, edits, toggles and deletes\<close>

lemma run_snoc: "run (es @ [e]) s = step e (run es s)"
  by (induction es arbitrary: s) simp_all

lemma track_snoc: "track i (es @ [e]) = track_step i e (track i es)"
  by (simp add: track_def)

lemma added_ids_append: "added_ids (es @ fs) = added_ids es @ added_ids fs"
  by (induction es rule: added_ids.induct) simp_all

lemma deletes_hit_snoc:
  "deletes_hit before (es @ [e]) = deletes_hit before es + deletes_hit (before @ es) [e]"
  by (induction before es rule: deletes_hit.induct) simp_all

lemma track_in_added_ids: "track i es \<noteq> None \<Longrightarrow> i \<in> set (added_ids es)"
proof (induction es rule: rev_induct)
  case Nil
  then show ?case by (simp add: track_def)
next
  case (snoc e es)
  then show ?case
    by (cases e) (auto simp: track_snoc added_ids_append split: if_splits)
qed

lemma length_filter_other_id:
  "distinct (map id_t L) \<Longrightarrow>
   length (filter (\<lambda>t. id_t t \<noteq> j) L) + (if j \<in> id_t ` set L then 1 else 0) = length L"
  by (induction L) auto

lemma agrees_alive:
  assumes "agrees L es"
  shows "track i es \<noteq> None \<longleftrightarrow> i \<in> id_t ` set L"
proof
  assume "track i es \<noteq> None"
  with track_in_added_ids [of i es]
  have "i \<in> set (filter (\<lambda>i. track i es \<noteq> None) (added_ids es))" by simp
  with assms have "i \<in> set (map id_t L)" by (simp add: agrees_def)
  then show "i \<in> id_t ` set L" by simp
next
  assume "i \<in> id_t ` set L"
  then have "i \<in> set (map id_t L)" by simp
  with assms have "i \<in> set (filter (\<lambda>i. track i es \<noteq> None) (added_ids es))"
    by (simp add: agrees_def)
  then show "track i es \<noteq> None" by simp
qed

lemma agrees_distinct:
  assumes "agrees L es" and "distinct (added_ids es)"
  shows "distinct (map id_t L)"
  using assms by (simp add: agrees_def)

lemma agrees_add:
  assumes a: "agrees L es" and nb: "trim raw \<noteq> []"
    and fresh: "JNum n1 \<notin> set (added_ids es)"
  shows "agrees (L @ [\<lparr> id_t = JNum n1, text_t = JStr (trim raw), completed = JBool False,
                        createdAt = JNum n2 \<rparr>]) (es @ [Add raw n1 n2])"
proof -
  let ?e = "Add raw n1 n2"
  have tr: "track i (es @ [?e]) =
      (if JNum n1 = i then Some \<lparr> id_t = i, text_t = JStr (trim raw), completed = JBool False,
                                  createdAt = JNum n2 \<rparr>
       else track i es)" for i
    using nb by (simp add: track_snoc)
  have same: "filter (\<lambda>i. track i (es @ [?e]) \<noteq> None) (added_ids es)
            = filter (\<lambda>i. track i es \<noteq> None) (added_ids es)"
    using fresh by (intro filter_cong) (auto simp: tr)
  have ids: "map id_t L = filter (\<lambda>i. track i es \<noteq> None) (added_ids es)"
    using a by (simp add: agrees_def)
  have old: "track (id_t t) (es @ [?e]) = Some t" if "t \<in> set L" for t
  proof -
    from that have "id_t t \<in> set (map id_t L)" by simp
    with ids have "id_t t \<in> set (added_ids es)" by simp
    with fresh have "JNum n1 \<noteq> id_t t" by auto
    with a that show ?thesis by (simp add: tr agrees_def)
  qed
  have len: "length L + deletes_hit [] es = length (added_ids es)"
    using a by (simp add: agrees_def)
  show ?thesis
    unfolding agrees_def
  proof (intro conjI)
    show "map id_t (L @ [\<lparr> id_t = JNum n1, text_t = JStr (trim raw), completed = JBool False,
                            createdAt = JNum n2 \<rparr>])
        = filter (\<lambda>i. track i (es @ [?e]) \<noteq> None) (added_ids (es @ [?e]))"
      using nb ids same by (simp add: added_ids_append tr)
    show "\<forall>t\<in>set (L @ [\<lparr> id_t = JNum n1, text_t = JStr (trim raw), completed = JBool False,
                            createdAt = JNum n2 \<rparr>]). track (id_t t) (es @ [?e]) = Some t"
      using old by (auto simp: tr)
    show "length (L @ [\<lparr> id_t = JNum n1, text_t = JStr (trim raw), completed = JBool False,
                            createdAt = JNum n2 \<rparr>]) + deletes_hit [] (es @ [?e])
        = length (added_ids (es @ [?e]))"
      using nb len by (simp add: added_ids_append deletes_hit_snoc)
  qed
qed

lemma agrees_blank_add:
  assumes "agrees L es" and "trim raw = []"
  shows "agrees L (es @ [Add raw n1 n2])"
  using assms by (simp add: agrees_def track_snoc added_ids_append deletes_hit_snoc)

lemma agrees_delete:
  assumes a: "agrees L es" and d: "distinct (added_ids es)"
  shows "agrees (filter (\<lambda>t. id_t t \<noteq> j) L) (es @ [Delete j])"
proof -
  let ?e = "Delete j"
  have tr: "track i (es @ [?e]) = (if j = i then None else track i es)" for i
    by (simp add: track_snoc)
  have ids: "map id_t L = filter (\<lambda>i. track i es \<noteq> None) (added_ids es)"
    using a by (simp add: agrees_def)
  have "map id_t (filter (\<lambda>t. id_t t \<noteq> j) L) = filter (\<lambda>i. i \<noteq> j) (map id_t L)"
    by (simp add: filter_map comp_def)
  also have "\<dots> = filter (\<lambda>i. track i (es @ [?e]) \<noteq> None) (added_ids es)"
    unfolding ids by (auto simp: tr intro: filter_cong)
  finally have ids': "map id_t (filter (\<lambda>t. id_t t \<noteq> j) L)
      = filter (\<lambda>i. track i (es @ [?e]) \<noteq> None) (added_ids (es @ [?e]))"
    by (simp add: added_ids_append)
  have tr': "\<forall>t\<in>set (filter (\<lambda>t. id_t t \<noteq> j) L). track (id_t t) (es @ [?e]) = Some t"
    using a by (auto simp: tr agrees_def)
  have hit: "deletes_hit [] (es @ [?e]) =
      deletes_hit [] es + (if j \<in> id_t ` set L then 1 else 0)"
    using agrees_alive [OF a, of j] by (cases "track j es") (simp_all add: deletes_hit_snoc)
  have "length (filter (\<lambda>t. id_t t \<noteq> j) L) + (if j \<in> id_t ` set L then 1 else 0) = length L"
    using agrees_distinct [OF a d] by (rule length_filter_other_id)
  moreover have "length L + deletes_hit [] es = length (added_ids es)"
    using a by (simp add: agrees_def)
  ultimately have len': "length (filter (\<lambda>t. id_t t \<noteq> j) L) + deletes_hit [] (es @ [?e])
      = length (added_ids (es @ [?e]))"
    by (simp add: hit added_ids_append)
  from ids' tr' len' show ?thesis by (simp add: agrees_def)
qed

lemma agrees_update:
  assumes a: "agrees L es"
    and tr: "\<And>i. track i (es @ [e]) = (if j = i then map_option f (track i es) else track i es)"
    and f: "\<And>t. id_t (f t) = id_t t"
    and e: "added_ids [e] = []" "deletes_hit (es) [e] = 0"
  shows "agrees (map (\<lambda>t. if id_t t = j then f t else t) L) (es @ [e])"
proof -
  have alive: "filter (\<lambda>i. track i (es @ [e]) \<noteq> None) (added_ids es)
             = filter (\<lambda>i. track i es \<noteq> None) (added_ids es)"
    by (rule filter_cong) (simp_all add: tr)
  have "map id_t (map (\<lambda>t. if id_t t = j then f t else t) L) = map id_t L"
    by (induction L) (simp_all add: f)
  also have "\<dots> = filter (\<lambda>i. track i es \<noteq> None) (added_ids es)"
    using a by (simp add: agrees_def)
  also have "\<dots> = filter (\<lambda>i. track i (es @ [e]) \<noteq> None) (added_ids es)"
    by (rule alive [symmetric])
  also have "added_ids es = added_ids (es @ [e])"
    by (simp add: added_ids_append e)
  finally have ids': "map id_t (map (\<lambda>t. if id_t t = j then f t else t) L)
      = filter (\<lambda>i. track i (es @ [e]) \<noteq> None) (added_ids (es @ [e]))" .
  have tr': "track (id_t t') (es @ [e]) = Some t'"
    if "t' \<in> set (map (\<lambda>t. if id_t t = j then f t else t) L)" for t'
  proof -
    from that obtain t where t: "t \<in> set L" "t' = (if id_t t = j then f t else t)" by auto
    from a t(1) have "track (id_t t) es = Some t" by (simp add: agrees_def)
    with t(2) show ?thesis by (auto simp: tr f)
  qed
  have len': "length (map (\<lambda>t. if id_t t = j then f t else t) L) + deletes_hit [] (es @ [e])
      = length (added_ids (es @ [e]))"
    using a by (simp add: agrees_def deletes_hit_snoc added_ids_append e)
  from ids' tr' len' show ?thesis unfolding agrees_def by blast
qed

lemma agrees_step:
  assumes a: "agrees (todos s) es" and op: "list_op e"
    and d: "distinct (added_ids (es @ [e]))"
  shows "agrees (todos (step e s)) (es @ [e])"
proof (cases e)
  case (Add raw n1 n2)
  show ?thesis
  proof (cases "trim raw = []")
    case True
    with a Add show ?thesis
      by (simp add: addTodo_def agrees_blank_add)
  next
    case False
    with d Add have "JNum n1 \<notin> set (added_ids es)"
      by (simp add: added_ids_append)
    from agrees_add [OF a False this] False Add show ?thesis
      by (simp add: addTodo_def Let_def)
  qed
next
  case (Delete j)
  from d have "distinct (added_ids es)" by (simp add: added_ids_append)
  from agrees_delete [OF a this] Delete show ?thesis
    by (simp add: deleteTodo_def)
next
  case (Toggle j)
  have "agrees (map (\<lambda>t. if id_t t = j then t\<lparr> completed := JBool (\<not> truthy (completed t)) \<rparr> else t)
          (todos s)) (es @ [Toggle j])"
    by (rule agrees_update [OF a]) (simp_all add: track_snoc)
  with Toggle show ?thesis by (simp add: toggleComplete_def)
next
  case (Edit j raw)
  show ?thesis
  proof (cases "trim raw = []")
    case True
    with a Edit show ?thesis
      by (simp add: updateTodo_def agrees_def track_snoc added_ids_append deletes_hit_snoc)
  next
    case False
    have "agrees (map (\<lambda>t. if id_t t = j then t\<lparr> text_t := JStr (trim raw) \<rparr> else t) (todos s))
            (es @ [Edit j raw])"
      using False by (intro agrees_update [OF a]) (simp_all add: track_snoc)
    with False Edit show ?thesis by (simp add: updateTodo_def Let_def)
  qed
next
  case ClearCompleted
  with op show ?thesis by simp
next
  case Timeout
  with op show ?thesis by simp
qed

lemma agrees_run:
  "list_all list_op es \<Longrightarrow> distinct (added_ids es) \<Longrightarrow> agrees (todos (run es empty_app)) es"
proof (induction es rule: rev_induct)
  case Nil
  show ?case by (simp add: agrees_def empty_app_def track_def)
next
  case (snoc e es)
  from snoc.prems have "list_all list_op es" and op: "list_op e"
    and "distinct (added_ids es)"
    by (simp_all add: added_ids_append)
  with snoc.IH have "agrees (todos (run es empty_app)) es" by simp
  from agrees_step [OF this op snoc.prems(2)] show ?case
    by (simp add: run_snoc)
qed

text \<open>
  C8, as the code has it. Take any history of adds, edits, toggles and deletes from the
  empty list in which the adds with a non-blank text read different clock values for
  their ids. Then the length of the list is the number of adds with a non-blank text
  minus the number of deletes that named an id in the list at that moment; the ids of
  the list are the ids handed out and not deleted since, in the order of their adds,
  each once; and each task is what the history says about its id: the text of the
  latest non-blank edit (of its add, before any), completed as often negated as its id
  was toggled. With different ids for "A" and "B", add "A", add "B", delete the id of
  "A" leaves the list with only "B".
\<close>

theorem history_of_list_ops:
  assumes "list_all list_op es" and "distinct (added_ids es)"
  shows "int (length (todos (run es empty_app)))
           = int (length (added_ids es)) - int (deletes_hit [] es)
       \<and> map id_t (todos (run es empty_app))
           = filter (\<lambda>i. track i es \<noteq> None) (added_ids es)
       \<and> distinct (map id_t (todos (run es empty_app)))
       \<and> (\<forall>t\<in>set (todos (run es empty_app)). track (id_t t) es = Some t)
       \<and> (n1 \<noteq> n2 \<longrightarrow>
            todos (run [Add ''A'' n1 m1, Add ''B'' n2 m2, Delete (JNum n1)] empty_app) =
              [\<lparr> id_t = JNum n2, text_t = JStr ''B'', completed = JBool False,
                 createdAt = JNum m2 \<rparr>])"
proof -
  from agrees_run [OF assms] have a: "agrees (todos (run es empty_app)) es" .
  then have len: "length (todos (run es empty_app)) + deletes_hit [] es = length (added_ids es)"
    and ids: "map id_t (todos (run es empty_app))
                = filter (\<lambda>i. track i es \<noteq> None) (added_ids es)"
    and tr: "\<forall>t\<in>set (todos (run es empty_app)). track (id_t t) es = Some t"
    by (simp_all add: agrees_def)
  from len have len': "int (length (todos (run es empty_app)))
           = int (length (added_ids es)) - int (deletes_hit [] es)"
    by linarith
  have dist: "distinct (map id_t (todos (run es empty_app)))"
    using a assms(2) by (rule agrees_distinct)
  have trims: "trim ''A'' = ''A''" "trim ''B'' = ''B''"
    by (simp_all add: trim_def is_space_def)
  have scenario: "todos (run [Add ''A'' n1 m1, Add ''B'' n2 m2, Delete (JNum n1)] empty_app) =
              [\<lparr> id_t = JNum n2, text_t = JStr ''B'', completed = JBool False,
                 createdAt = JNum m2 \<rparr>]" if "n1 \<noteq> n2"
    using that by (simp add: empty_app_def addTodo_def deleteTodo_def trims)
  from len' ids dist tr scenario show ?thesis by blast
qed

theorem history_of_list_ops_witness:
  "list_all list_op sample_history \<and> distinct (added_ids sample_history)
   \<and> added_ids sample_history = [JNum 1, JNum 3]
   \<and> deletes_hit [] sample_history = 1
   \<and> todos (run sample_history empty_app) =
       [\<lparr> id_t = JNum 3, text_t = JStr ''B2'', completed = JBool True, createdAt = JNum 4 \<rparr>]
   \<and> track (JNum 3) sample_history =
       Some \<lparr> id_t = JNum 3, text_t = JStr ''B2'', completed = JBool True, createdAt = JNum 4 \<rparr>
   \<and> track (JNum 1) sample_history = None"
proof -
  have trims: "trim '' A '' = ''A''" "trim ''  '' = []" "trim ''B'' = ''B''"
    "trim ''B2 '' = ''B2''"
    by (simp_all add: trim_def is_space_def)
  have h1: "list_all list_op sample_history"
    by (simp add: sample_history_def)
  have ids: "added_ids sample_history = [JNum 1, JNum 3]"
    by (simp add: sample_history_def trims)
  then have h2: "distinct (added_ids sample_history)"
    by simp
  have tr: "track (JNum 3) sample_history =
       Some \<lparr> id_t = JNum 3, text_t = JStr ''B2'', completed = JBool True, createdAt = JNum 4 \<rparr>"
    "track (JNum 1) sample_history = None"
    by (simp_all add: sample_history_def track_def trims)
  have hit: "deletes_hit [] sample_history = 1"
    by (simp add: sample_history_def track_def trims)
  have run: "todos (run sample_history empty_app) =
       [\<lparr> id_t = JNum 3, text_t = JStr ''B2'', completed = JBool True, createdAt = JNum 4 \<rparr>]"
    by (simp add: sample_history_def empty_app_def addTodo_def updateTodo_def
        toggleComplete_def deleteTodo_def trims)
  show ?thesis
    using h1 h2 ids tr hit run history_of_list_ops [OF h1 h2, of 1 3 2 4]
    by simp
qed

text \<open>
  The claim as written counts every add and every delete. It fails for an add of
  three blanks (no task, one add), for a delete of an id that no task has (one task,
  one add and one delete), and, when two adds read the same clock value, for the
  delete of that id, which removes both tasks.
\<close>

theorem adds_minus_deletes_counterexample:
  "int (length (todos (run [Add ''   '' 1 1] empty_app)))
     \<noteq> int (count_adds [Add ''   '' 1 1]) - int (count_deletes [Add ''   '' 1 1])
   \<and> int (length (todos (run [Add ''A'' 1 1, Delete (JNum 2)] empty_app)))
     \<noteq> int (count_adds [Add ''A'' 1 1, Delete (JNum 2)])
        - int (count_deletes [Add ''A'' 1 1, Delete (JNum 2)])
   \<and> int (length (todos (run [Add ''A'' 1000 1000, Add ''B'' 1000 1000, Delete (JNum 1000)]
                           empty_app)))
     \<noteq> int (count_adds [Add ''A'' 1000 1000, Add ''B'' 1000 1000, Delete (JNum 1000)])
        - int (count_deletes [Add ''A'' 1000 1000, Add ''B'' 1000 1000, Delete (JNum 1000)])"
  by (simp add: empty_app_def addTodo_def deleteTodo_def count_adds_def count_deletes_def
      trim_def is_space_def)

end
